theory Spec2Isabelle
  imports Complex_Main
begin

section \<open>Numbers of the source\<close>

text \<open>
  The source computes on JavaScript numbers. Side indices are modelled as \<open>int\<close>, angles,
  orientations and distances as \<open>real\<close>: rounding of the floating-point operations is not
  part of the model. The remainder operator \<^verbatim>\<open>%\<close> of the source truncates: its result has
  the sign of the dividend. Both divisors used by the source (\<open>SIDES\<close> and \<open>2 * Math.PI\<close>)
  are non-zero constants.
\<close>

definition js_rem_int :: "int \<Rightarrow> int \<Rightarrow> int" where
  "js_rem_int a b = sgn a * (\<bar>a\<bar> mod \<bar>b\<bar>)"

definition trunc :: "real \<Rightarrow> int" where
  "trunc x = (if 0 \<le> x then \<lfloor>x\<rfloor> else \<lceil>x\<rceil>)"

definition js_rem :: "real \<Rightarrow> real \<Rightarrow> real" where
  "js_rem a b = a - b * of_int (trunc (a / b))"

section \<open>src/app/lib/rotation.ts\<close>

definition SIDES :: int where
  "SIDES = 6"

definition ANGLE_PER_SIDE :: real where
  "ANGLE_PER_SIDE = (2 * pi) / of_int SIDES"

definition getRotationAngle :: "int \<Rightarrow> real" where
  "getRotationAngle side = of_int side * ANGLE_PER_SIDE"

definition getNextSide :: "int \<Rightarrow> int" where
  "getNextSide current = js_rem_int (current + 1) SIDES"

definition getPrevSide :: "int \<Rightarrow> int" where
  "getPrevSide current = js_rem_int (current - 1 + SIDES) SIDES"

section \<open>CityGroup: accumulated rotation\<close>

text \<open>
  The two refs of \<open>CityGroup\<close>: \<open>prevSideRef\<close> and \<open>accumulatedRef\<close>. The component
  initialises them from the \<open>currentSide\<close> of its first render.
\<close>

record rotation_refs =
  prevSideRef :: int
  accumulatedRef :: real

definition CityGroup_init :: "int \<Rightarrow> rotation_refs" where
  "CityGroup_init currentSide =
     \<lparr>prevSideRef = currentSide, accumulatedRef = getRotationAngle currentSide\<rparr>"

text \<open>The \<open>else\<close> branch of the side-change effect: the delta of a direct jump.\<close>

definition jump_delta :: "int \<Rightarrow> int \<Rightarrow> real" where
  "jump_delta prev currentSide =
     (let delta = getRotationAngle currentSide - getRotationAngle prev
      in js_rem (delta + pi) (2 * pi) - pi)"

text \<open>The effect that runs when \<open>currentSide\<close> changes.\<close>

definition onSideChanged :: "rotation_refs \<Rightarrow> int \<Rightarrow> rotation_refs" where
  "onSideChanged r currentSide =
     (let prev = prevSideRef r in
      if prev = currentSide then r
      else
        (if getNextSide prev = currentSide
         then r\<lparr>accumulatedRef := accumulatedRef r + ANGLE_PER_SIDE\<rparr>
         else if getPrevSide prev = currentSide
         then r\<lparr>accumulatedRef := accumulatedRef r - ANGLE_PER_SIDE\<rparr>
         else r\<lparr>accumulatedRef := accumulatedRef r + jump_delta prev currentSide\<rparr>)
        \<lparr>prevSideRef := currentSide\<rparr>)"

section \<open>CityGroup: damped rotation per frame\<close>

definition SMOOTHING :: real where
  "SMOOTHING = 5"

definition EPSILON :: real where
  "EPSILON = 0.0005"

text \<open>
  The \<open>useFrame\<close> callback of \<open>CityGroup\<close>. \<open>accumulated\<close> is \<open>accumulatedRef.current\<close>;
  \<open>rotation_y\<close> is the \<open>rotation.y\<close> of \<open>groupRef.current\<close>, or \<open>None\<close> when the ref is
  null (the callback then returns at once). The result is the new \<open>rotation.y\<close>.
\<close>

definition useFrame_cb :: "real \<Rightarrow> real option \<Rightarrow> real \<Rightarrow> real option" where
  "useFrame_cb accumulated rotation_y dt =
     (case rotation_y of
        None \<Rightarrow> None
      | Some current \<Rightarrow>
          (let target = accumulated; delta = target - current in
           if \<bar>delta\<bar> < EPSILON then Some target
           else (let factor = 1 - exp (- SMOOTHING * dt)
                 in Some (current + delta * factor))))"

text \<open>\<open>n\<close> frames with the same target and the same \<open>dt\<close>.\<close>

primrec ticks :: "nat \<Rightarrow> real \<Rightarrow> real \<Rightarrow> real option \<Rightarrow> real option" where
  "ticks 0 accumulated dt rotation_y = rotation_y"
| "ticks (Suc n) accumulated dt rotation_y =
     useFrame_cb accumulated (ticks n accumulated dt rotation_y) dt"

section \<open>AutoFrameCamera\<close>

definition CAMERA_FOV :: real where
  "CAMERA_FOV = 75"

definition CAMERA_ELEVATION_ANGLE :: real where
  "CAMERA_ELEVATION_ANGLE = 2.85"

definition FRAMING_PADDING :: real where
  "FRAMING_PADDING = 0.7"

definition MIN_CAMERA_DISTANCE :: real where
  "MIN_CAMERA_DISTANCE = 5"

definition ZOOM_IN_FACTOR :: real where
  "ZOOM_IN_FACTOR = 0.33"

definition MOBILE_BREAKPOINT :: real where
  "MOBILE_BREAKPOINT = 1000"

definition MOBILE_DISTANCE_FACTOR :: real where
  "MOBILE_DISTANCE_FACTOR = 1.35"

text \<open>
  \<open>THREE.MathUtils.degToRad\<close> belongs to the three.js library, not to this repository:
  it multiplies by \<open>\<pi>/180\<close>.
\<close>

definition degToRad :: "real \<Rightarrow> real" where
  "degToRad degrees = degrees * (pi / 180)"

record vec3 =
  vx :: real
  vy :: real
  vz :: real

record sphere =
  center :: vec3
  radius :: real

text \<open>
  What the effect and its callback read from \<open>groupRef.current\<close>: the number of children
  and the result of the library's bounding-volume query (\<open>None\<close> when the \<open>Box3\<close> of the
  group is empty, otherwise its bounding sphere).
\<close>

record group =
  children_length :: nat
  bounding_sphere :: "sphere option"

record camera_pose =
  position :: vec3
  looking_at :: "vec3 option"

record orbit_controls =
  orbit_target :: vec3
  minDistance :: real
  maxDistance :: real

text \<open>The camera distance computed by the callback from the radius of the bounding sphere.\<close>

definition framing_distance :: "real \<Rightarrow> real \<Rightarrow> real" where
  "framing_distance sphere_radius width =
     (let radius = sphere_radius * FRAMING_PADDING;
          fovRad = degToRad CAMERA_FOV;
          distance = max (radius / tan (fovRad / 2)) MIN_CAMERA_DISTANCE
      in if width < MOBILE_BREAKPOINT then distance * MOBILE_DISTANCE_FACTOR else distance)"

text \<open>
  The state of one mounted \<open>AutoFrameCamera\<close>: the \<open>hasFramed\<close> ref, the camera and the
  orbit controls it writes (\<open>controlsRef.current\<close> may be null), the animation-frame
  callbacks it has requested and that have not run yet (each with its id and the
  \<open>size.width\<close> its closure captured), and the id that the cleanup of the last effect
  run cancels. \<open>framings\<close> is not in the source: it counts how often the callback reached
  its last statement \<open>hasFramed.current = true\<close>.
\<close>

record auto_frame =
  hasFramed :: bool
  camera :: camera_pose
  controls :: "orbit_controls option"
  raf_queue :: "(nat \<times> real) list"
  effect_cleanup :: "nat option"
  next_raf_id :: nat
  framings :: nat

definition AutoFrameCamera_init :: "orbit_controls option \<Rightarrow> auto_frame" where
  "AutoFrameCamera_init c =
     \<lparr>hasFramed = False,
      camera = \<lparr>position = \<lparr>vx = 0, vy = 8, vz = 14\<rparr>, looking_at = None\<rparr>,
      controls = c, raf_queue = [], effect_cleanup = None, next_raf_id = 0, framings = 0\<rparr>"

text \<open>The callback passed to \<open>requestAnimationFrame\<close>.\<close>

definition raf_callback :: "group option \<Rightarrow> real \<Rightarrow> auto_frame \<Rightarrow> auto_frame" where
  "raf_callback groupRef width s =
     (case groupRef of
        None \<Rightarrow> s
      | Some g \<Rightarrow>
          (case bounding_sphere g of
             None \<Rightarrow> s
           | Some sph \<Rightarrow>
               (let c = center sph;
                    distance = framing_distance (radius sph) width;
                    camY = vy c + distance * sin CAMERA_ELEVATION_ANGLE;
                    camZ = vz c + distance * cos CAMERA_ELEVATION_ANGLE
                in s\<lparr>camera := \<lparr>position = \<lparr>vx = vx c, vy = camY, vz = camZ\<rparr>,
                                looking_at = Some c\<rparr>,
                      controls := map_option
                        (\<lambda>oc. oc\<lparr>orbit_target := c, minDistance := distance * ZOOM_IN_FACTOR,
                                  maxDistance := distance\<rparr>) (controls s),
                      hasFramed := True,
                      framings := framings s + 1\<rparr>)))"

text \<open>The cleanup returned by the effect: \<open>cancelAnimationFrame(id)\<close>.\<close>

definition run_cleanup :: "auto_frame \<Rightarrow> auto_frame" where
  "run_cleanup s =
     (case effect_cleanup s of
        None \<Rightarrow> s
      | Some i \<Rightarrow> s\<lparr>raf_queue := filter (\<lambda>p. fst p \<noteq> i) (raf_queue s),
                     effect_cleanup := None\<rparr>)"

text \<open>The body of the effect, for the \<open>groupRef.current\<close> and \<open>size.width\<close> of that moment.\<close>

definition effect_body :: "group option \<Rightarrow> real \<Rightarrow> auto_frame \<Rightarrow> auto_frame" where
  "effect_body groupRef width s =
     (if hasFramed s \<or> groupRef = None
         \<or> (case groupRef of None \<Rightarrow> True | Some g \<Rightarrow> children_length g = 0)
      then s\<lparr>effect_cleanup := None\<rparr>
      else s\<lparr>raf_queue := raf_queue s @ [(next_raf_id s, width)],
             effect_cleanup := Some (next_raf_id s),
             next_raf_id := next_raf_id s + 1\<rparr>)"

text \<open>
  What can happen to a mounted \<open>AutoFrameCamera\<close>: React runs the effect (the first time,
  or again after a dependency changed; it runs the cleanup of the previous run first),
  the browser delivers an animation frame and runs the callbacks requested so far, or
  React runs the cleanup alone.
\<close>

datatype event =
    Effect "group option" real
  | AnimationFrame "group option"
  | Cleanup

fun step :: "auto_frame \<Rightarrow> event \<Rightarrow> auto_frame" where
  "step s (Effect groupRef width) = effect_body groupRef width (run_cleanup s)"
| "step s (AnimationFrame groupRef) =
     fold (\<lambda>p. raf_callback groupRef (snd p)) (raf_queue s) (s\<lparr>raf_queue := []\<rparr>)"
| "step s Cleanup = run_cleanup s"

definition run :: "auto_frame \<Rightarrow> event list \<Rightarrow> auto_frame" where
  "run s es = foldl step s es"

text \<open>
  The invariant of the animation-frame queue used in the proofs: at most one requested
  callback is waiting, it is the one the pending cleanup would cancel, none is waiting
  once \<open>hasFramed\<close> is set, and the framing has happened exactly once when \<open>hasFramed\<close> is
  set and never otherwise.
\<close>

definition queue_owned :: "auto_frame \<Rightarrow> bool" where
  "queue_owned s \<longleftrightarrow>
     length (raf_queue s) \<le> 1
     \<and> (\<forall>p \<in> set (raf_queue s). effect_cleanup s = Some (fst p))
     \<and> (hasFramed s \<longrightarrow> raf_queue s = [])
     \<and> framings s = (if hasFramed s then 1 else 0)"

text \<open>A populated group with a bounding sphere of radius 10, for concrete runs.\<close>

definition city :: group where
  "city = \<lparr>children_length = 18,
           bounding_sphere = Some \<lparr>center = \<lparr>vx = 0, vy = 0, vz = 0\<rparr>, radius = 10\<rparr>\<rparr>"

section \<open>Side arithmetic\<close>

lemma getNextSide_in_range:
  assumes "0 \<le> s" "s < 6"
  shows "getNextSide s = (if s = 5 then 0 else s + 1)"
proof -
  have "(s + 1) mod 6 = (if s = 5 then 0 else s + 1)"
    using assms by presburger
  moreover have "sgn (s + 1) = 1" "\<bar>s + 1\<bar> = s + 1"
    using assms by simp_all
  ultimately show ?thesis
    by (simp add: getNextSide_def js_rem_int_def SIDES_def)
qed

lemma getPrevSide_in_range:
  assumes "0 \<le> s" "s < 6"
  shows "getPrevSide s = (if s = 0 then 5 else s - 1)"
proof -
  have "(s - 1 + 6) mod 6 = (if s = 0 then 5 else s - 1)"
    using assms by presburger
  moreover have "sgn (s - 1 + 6) = 1" "\<bar>s - 1 + 6\<bar> = s - 1 + 6"
    using assms by simp_all
  ultimately show ?thesis
    by (simp add: getPrevSide_def js_rem_int_def SIDES_def)
qed

text \<open>
  C9: for every side index \<open>s\<close> in [0,6), the next side of the previous side is \<open>s\<close>, and the
  previous side of the next side is \<open>s\<close>.
\<close>

theorem next_prev_inverse:
  assumes "0 \<le> s" "s < 6"
  shows "getNextSide (getPrevSide s) = s \<and> getPrevSide (getNextSide s) = s"
proof -
  have p: "getPrevSide s = (if s = 0 then 5 else s - 1)"
    using assms by (rule getPrevSide_in_range)
  have n: "getNextSide s = (if s = 5 then 0 else s + 1)"
    using assms by (rule getNextSide_in_range)
  have "getNextSide (getPrevSide s) = s"
    using assms by (simp add: p getNextSide_in_range)
  moreover have "getPrevSide (getNextSide s) = s"
    using assms by (simp add: n getPrevSide_in_range)
  ultimately show ?thesis by simp
qed

theorem next_prev_inverse_witness:
  "(0::int) \<le> 0 \<and> (0::int) < 6 \<and> getPrevSide 0 = 5 \<and> getNextSide 5 = 0
   \<and> getNextSide (getPrevSide 0) = 0 \<and> getPrevSide (getNextSide 0) = 0"
  using next_prev_inverse [of 0]
  by (simp add: getNextSide_def getPrevSide_def js_rem_int_def SIDES_def)

text \<open>
  C7: for previous and next sides in [0,6), the side-change handler adds exactly
  \<open>2\<pi>/6\<close> to the accumulated rotation when the new side is the next side of the previous
  one, subtracts exactly \<open>2\<pi>/6\<close> when it is the previous side of the previous one, and
  leaves the accumulated rotation unchanged when the side did not change.
\<close>

theorem onSideChanged_adjacent:
  assumes "0 \<le> prevSideRef r" "prevSideRef r < 6" "0 \<le> n" "n < 6"
  shows "(n = getNextSide (prevSideRef r) \<longrightarrow>
            accumulatedRef (onSideChanged r n) = accumulatedRef r + 2 * pi / 6)
       \<and> (n = getPrevSide (prevSideRef r) \<longrightarrow>
            accumulatedRef (onSideChanged r n) = accumulatedRef r - 2 * pi / 6)
       \<and> (n = prevSideRef r \<longrightarrow> onSideChanged r n = r)"
proof -
  have nx: "getNextSide (prevSideRef r) = (if prevSideRef r = 5 then 0 else prevSideRef r + 1)"
    using assms(1,2) by (rule getNextSide_in_range)
  have pv: "getPrevSide (prevSideRef r) = (if prevSideRef r = 0 then 5 else prevSideRef r - 1)"
    using assms(1,2) by (rule getPrevSide_in_range)
  have ne: "getNextSide (prevSideRef r) \<noteq> prevSideRef r"
    "getPrevSide (prevSideRef r) \<noteq> prevSideRef r"
    "getPrevSide (prevSideRef r) \<noteq> getNextSide (prevSideRef r)"
    using assms(1,2) by (auto simp: nx pv)
  have fwd: "accumulatedRef (onSideChanged r (getNextSide (prevSideRef r)))
               = accumulatedRef r + 2 * pi / 6"
    using ne by (simp add: onSideChanged_def Let_def ANGLE_PER_SIDE_def SIDES_def)
  have bwd: "accumulatedRef (onSideChanged r (getPrevSide (prevSideRef r)))
               = accumulatedRef r - 2 * pi / 6"
    using ne by (simp add: onSideChanged_def Let_def ANGLE_PER_SIDE_def SIDES_def)
  have same: "onSideChanged r (prevSideRef r) = r"
    by (simp add: onSideChanged_def)
  show ?thesis
    using fwd bwd same by blast
qed

theorem onSideChanged_adjacent_witness:
  "accumulatedRef (onSideChanged (CityGroup_init 5) 0) = getRotationAngle 5 + 2 * pi / 6
   \<and> accumulatedRef (onSideChanged (CityGroup_init 0) 5) = getRotationAngle 0 - 2 * pi / 6
   \<and> onSideChanged (CityGroup_init 2) 2 = CityGroup_init 2"
proof -
  have a: "getNextSide 5 = 0" "getPrevSide 0 = 5"
    by (simp_all add: getNextSide_def getPrevSide_def js_rem_int_def SIDES_def)
  show ?thesis
    using onSideChanged_adjacent [of "CityGroup_init 5" 0]
      onSideChanged_adjacent [of "CityGroup_init 0" 5]
      onSideChanged_adjacent [of "CityGroup_init 2" 2]
    by (simp add: CityGroup_init_def a)
qed

section \<open>Damping\<close>

lemma useFrame_cb_Some:
  "useFrame_cb target (Some current) dt =
     Some (if \<bar>target - current\<bar> < EPSILON then target
           else current + (target - current) * (1 - exp (- SMOOTHING * dt)))"
  by (simp add: useFrame_cb_def Let_def)

lemma useFrame_cb_distance:
  "useFrame_cb target (Some current) dt = Some c' \<Longrightarrow>
   \<bar>target - c'\<bar> = (if \<bar>target - current\<bar> < EPSILON then 0
                   else \<bar>target - current\<bar> * exp (- SMOOTHING * dt))"
proof -
  assume a: "useFrame_cb target (Some current) dt = Some c'"
  show ?thesis
  proof (cases "\<bar>target - current\<bar> < EPSILON")
    case True
    with a show ?thesis by (simp add: useFrame_cb_Some)
  next
    case False
    with a have "c' = current + (target - current) * (1 - exp (- SMOOTHING * dt))"
      by (simp add: useFrame_cb_Some)
    then have "target - c' = (target - current) * exp (- SMOOTHING * dt)"
      by (simp add: algebra_simps)
    then have "\<bar>target - c'\<bar> = \<bar>target - current\<bar> * exp (- SMOOTHING * dt)"
      by (simp add: abs_mult)
    with False show ?thesis by simp
  qed
qed

text \<open>
  C3: for every target, every current orientation and every \<open>dt > 0\<close>, one call of the
  per-frame damping step sets the orientation to the target exactly when
  \<open>|target - current| < 5\<times>10\<^sup>-\<^sup>4\<close>, and otherwise sets it to
  \<open>current + (target - current) \<times> (1 - exp (-5 \<times> dt))\<close>.
\<close>

theorem damping_step:
  assumes "0 < dt"
  shows "useFrame_cb target (Some current) dt =
           Some (if \<bar>target - current\<bar> < 5 / 10 ^ 4 then target
                 else current + (target - current) * (1 - exp (- 5 * dt)))
       \<and> (useFrame_cb target (Some current) dt = Some target
            \<longleftrightarrow> \<bar>target - current\<bar> < 5 / 10 ^ 4)"
proof -
  have e: "EPSILON = 5 / 10 ^ 4" by (simp add: EPSILON_def)
  have 1: "useFrame_cb target (Some current) dt =
           Some (if \<bar>target - current\<bar> < 5 / 10 ^ 4 then target
                 else current + (target - current) * (1 - exp (- 5 * dt)))"
    unfolding useFrame_cb_Some e by (simp add: SMOOTHING_def)
  have 2: "useFrame_cb target (Some current) dt = Some target
            \<longleftrightarrow> \<bar>target - current\<bar> < 5 / 10 ^ 4"
  proof
    assume a: "useFrame_cb target (Some current) dt = Some target"
    show "\<bar>target - current\<bar> < 5 / 10 ^ 4"
    proof (rule ccontr)
      assume n: "\<not> \<bar>target - current\<bar> < 5 / 10 ^ 4"
      from useFrame_cb_distance [OF a] n e
      have "\<bar>target - current\<bar> * exp (- SMOOTHING * dt) = 0" by simp
      then have "\<bar>target - current\<bar> = 0" by simp
      with n show False by simp
    qed
  next
    assume "\<bar>target - current\<bar> < 5 / 10 ^ 4"
    then show "useFrame_cb target (Some current) dt = Some target"
      by (simp add: 1)
  qed
  from 1 2 show ?thesis by blast
qed

theorem damping_step_witness:
  "(0::real) < 1
   \<and> useFrame_cb 1 (Some 0) 1 = Some (1 - exp (- 5))
   \<and> useFrame_cb 1 (Some 0) 1 \<noteq> Some 1"
  using damping_step [of 1 1 0] by simp

text \<open>
  C8: when the damping step is called with \<open>dt = 0\<close> and \<open>|target - current| \<ge> \<epsilon>\<close>, the
  interpolation factor \<open>1 - exp (-5 \<times> 0)\<close> is 0 and the orientation is left unchanged;
  the step returns a value (it has no failing branch and performs no division).
\<close>

theorem damping_dt_zero:
  assumes "EPSILON \<le> \<bar>target - current\<bar>"
  shows "1 - exp (- SMOOTHING * 0) = 0
       \<and> useFrame_cb target (Some current) 0 = Some current"
  using assms by (simp add: useFrame_cb_Some)

theorem damping_dt_zero_witness:
  "EPSILON \<le> \<bar>1 - 0\<bar> \<and> useFrame_cb 1 (Some 0) 0 = Some 0"
  using damping_dt_zero [of 1 0] by (simp add: EPSILON_def)

text \<open>
  C10: the damping step never overshoots. For every target, every current orientation
  and every \<open>dt \<ge> 0\<close>, the orientation after one call lies in the closed interval between
  the previous orientation and the target, the interpolation factor lies in [0,1), and
  the distance to the target does not increase.
\<close>

theorem damping_no_overshoot:
  assumes "0 \<le> dt"
  shows "\<exists>c'. useFrame_cb target (Some current) dt = Some c'
           \<and> min current target \<le> c' \<and> c' \<le> max current target
           \<and> \<bar>target - c'\<bar> \<le> \<bar>target - current\<bar>
           \<and> 0 \<le> 1 - exp (- SMOOTHING * dt) \<and> 1 - exp (- SMOOTHING * dt) < 1"
proof -
  define f where "f = 1 - exp (- SMOOTHING * dt)"
  have "- SMOOTHING * dt \<le> 0" using assms by (simp add: SMOOTHING_def)
  then have "exp (- SMOOTHING * dt) \<le> 1" by (simp only: exp_le_one_iff)
  then have f0: "0 \<le> f" by (simp add: f_def)
  have f1: "f < 1" by (simp add: f_def)
  define c' where "c' = (if \<bar>target - current\<bar> < EPSILON then target
           else current + (target - current) * f)"
  have r: "useFrame_cb target (Some current) dt = Some c'"
    by (simp add: useFrame_cb_Some c'_def f_def)
  define d where "d = (target - current) * f"
  have c': "c' = target \<or> c' = current + d"
    by (simp add: c'_def d_def)
  have up: "current \<le> target \<Longrightarrow> 0 \<le> d \<and> d \<le> target - current"
  proof -
    assume a: "current \<le> target"
    then have "0 \<le> (target - current) * f" using f0 by simp
    moreover have "(target - current) * f \<le> (target - current) * 1"
      using a f1 by (intro mult_left_mono) simp_all
    ultimately show ?thesis by (simp add: d_def)
  qed
  have down: "target \<le> current \<Longrightarrow> target - current \<le> d \<and> d \<le> 0"
  proof -
    assume a: "target \<le> current"
    then have "(target - current) * f \<le> 0"
      using f0 by (simp add: mult_nonpos_nonneg)
    moreover have "(target - current) * 1 \<le> (target - current) * f"
      using a f1 by (intro mult_left_mono_neg) simp_all
    ultimately show ?thesis by (simp add: d_def)
  qed
  have lo: "min current target \<le> c'"
    using c' up down by (cases "current \<le> target") (auto simp: min_def)
  have hi: "c' \<le> max current target"
    using c' up down by (cases "current \<le> target") (auto simp: max_def)
  have d: "\<bar>target - c'\<bar> \<le> \<bar>target - current\<bar>"
    using lo hi by (simp add: min_def max_def split: if_splits)
  from r lo hi d f0 f1 show ?thesis unfolding f_def by blast
qed

theorem damping_no_overshoot_witness:
  "(0::real) \<le> 1
   \<and> (\<exists>c'. useFrame_cb 1 (Some 0) 1 = Some c' \<and> 0 \<le> c' \<and> c' \<le> 1 \<and> \<bar>1 - c'\<bar> \<le> 1)"
  using damping_no_overshoot [of 1 1 0] by auto

section \<open>Convergence of the damping\<close>

lemma ticks_Some: "\<exists>c. ticks n target dt (Some c0) = Some c"
  by (induction n) (auto simp: useFrame_cb_Some)

lemma useFrame_cb_closer:
  assumes "useFrame_cb target (Some current) dt = Some c'" "current \<noteq> target" "0 < dt"
  shows "\<bar>target - c'\<bar> < \<bar>target - current\<bar>"
proof -
  have pos: "0 < \<bar>target - current\<bar>" using assms(2) by simp
  have "exp (- SMOOTHING * dt) < 1"
    using assms(3) by (simp add: SMOOTHING_def)
  then have "\<bar>target - current\<bar> * exp (- SMOOTHING * dt) < \<bar>target - current\<bar> * 1"
    using pos by (intro mult_strict_left_mono)
  then show ?thesis
    using useFrame_cb_distance [OF assms(1)] pos by (simp split: if_splits)
qed

lemma ticks_distance_bound:
  "ticks n target dt (Some c0) = Some c \<Longrightarrow>
   \<bar>target - c\<bar> \<le> \<bar>target - c0\<bar> * exp (- SMOOTHING * dt) ^ n"
proof (induction n arbitrary: c)
  case 0
  then show ?case by simp
next
  case (Suc n)
  obtain b where b: "ticks n target dt (Some c0) = Some b"
    using ticks_Some by blast
  have ih: "\<bar>target - b\<bar> \<le> \<bar>target - c0\<bar> * exp (- SMOOTHING * dt) ^ n"
    using Suc.IH b by blast
  have s: "useFrame_cb target (Some b) dt = Some c"
    using Suc.prems b by simp
  have "\<bar>target - c\<bar> \<le> \<bar>target - b\<bar> * exp (- SMOOTHING * dt)"
    using useFrame_cb_distance [OF s] by (simp split: if_splits)
  also have "\<dots> \<le> (\<bar>target - c0\<bar> * exp (- SMOOTHING * dt) ^ n) * exp (- SMOOTHING * dt)"
    using ih by (intro mult_right_mono) simp_all
  finally show ?case by (simp add: mult_ac)
qed

lemma pow_108: "(2000::real) < (108 / 100) ^ 99"
  by (simp add: power_divide)

lemma exp_tick_small: "exp (- SMOOTHING * 0.016) ^ 99 < EPSILON"
proof -
  have "(108 / 100 :: real) \<le> exp (8 / 100)"
    using exp_ge_add_one_self [of "8 / 100 :: real"] by simp
  then have "(108 / 100 :: real) ^ 99 \<le> exp (8 / 100) ^ 99"
    by (intro power_mono) simp_all
  with pow_108 have big: "2000 < exp (8 / 100 :: real) ^ 99" by linarith
  have "exp (- SMOOTHING * 0.016) = inverse (exp (8 / 100 :: real))"
    by (simp add: SMOOTHING_def exp_minus)
  then have "exp (- SMOOTHING * 0.016) ^ 99 = inverse (exp (8 / 100 :: real) ^ 99)"
    by (simp add: power_inverse)
  also have "\<dots> < inverse 2000"
    using big by (intro less_imp_inverse_less) simp_all
  finally show ?thesis by (simp add: EPSILON_def)
qed

text \<open>
  C6: starting from orientation 0 with target 1.0 (smoothing constant 5) and feeding the
  damping step ticks of constant \<open>dt = 0.016\<close>, the distance to the target strictly
  decreases on every tick as long as the orientation has not been set to the target
  itself, and after some positive number of ticks the orientation is within
  \<open>\<epsilon> = 5\<times>10\<^sup>-\<^sup>4\<close> of the target.
\<close>

theorem damping_converges:
  "(\<forall>n. \<exists>c c'. ticks n 1 0.016 (Some 0) = Some c
             \<and> ticks (Suc n) 1 0.016 (Some 0) = Some c'
             \<and> (c \<noteq> 1 \<longrightarrow> \<bar>1 - c'\<bar> < \<bar>1 - c\<bar>))
   \<and> (\<exists>n c. 0 < n \<and> ticks n 1 0.016 (Some 0) = Some c \<and> \<bar>1 - c\<bar> < EPSILON)"
proof (intro conjI allI)
  fix n
  obtain c where c: "ticks n 1 0.016 (Some 0) = Some c"
    using ticks_Some by blast
  obtain c' where c': "ticks (Suc n) 1 0.016 (Some 0) = Some c'"
    using ticks_Some by blast
  have "useFrame_cb 1 (Some c) 0.016 = Some c'"
    using c c' by simp
  then have "c \<noteq> 1 \<longrightarrow> \<bar>1 - c'\<bar> < \<bar>1 - c\<bar>"
    using useFrame_cb_closer [of 1 c "0.016" c'] by simp
  with c c' show "\<exists>c c'. ticks n 1 0.016 (Some 0) = Some c
             \<and> ticks (Suc n) 1 0.016 (Some 0) = Some c'
             \<and> (c \<noteq> 1 \<longrightarrow> \<bar>1 - c'\<bar> < \<bar>1 - c\<bar>)"
    by blast
next
  obtain c where c: "ticks 99 1 0.016 (Some 0) = Some c"
    using ticks_Some by blast
  have "\<bar>1 - c\<bar> \<le> \<bar>1 - 0\<bar> * exp (- SMOOTHING * 0.016) ^ 99"
    using c by (rule ticks_distance_bound)
  then have "\<bar>1 - c\<bar> < EPSILON"
    using exp_tick_small by simp
  with c show "\<exists>n c. 0 < n \<and> ticks n 1 0.016 (Some 0) = Some c \<and> \<bar>1 - c\<bar> < EPSILON"
    by (intro exI [of _ 99] exI [of _ c]) simp
qed

theorem damping_converges_witness:
  "\<exists>c'. ticks (Suc 0) 1 0.016 (Some 0) = Some c' \<and> \<bar>1 - c'\<bar> < \<bar>1 - 0\<bar>"
proof -
  from damping_converges obtain c c' where
    "ticks 0 1 0.016 (Some 0) = Some c"
    "ticks (Suc 0) 1 0.016 (Some 0) = Some c'"
    "c \<noteq> 1 \<longrightarrow> \<bar>1 - c'\<bar> < \<bar>1 - c\<bar>"
    by blast
  then show ?thesis by auto
qed

section \<open>Direct jumps and the accumulated rotation\<close>

lemma getRotationAngle_diff:
  "getRotationAngle n - getRotationAngle p = (of_int n - of_int p) * (pi / 3)"
  by (simp add: getRotationAngle_def ANGLE_PER_SIDE_def SIDES_def algebra_simps)

lemma jump_delta_closed:
  "jump_delta p n = (of_int n - of_int p) * (pi / 3)
                    - 2 * pi * of_int (trunc ((of_int n - of_int p + 3) / 6))"
proof -
  have e: "((of_int n - of_int p) * (pi / 3) + pi) / (2 * pi) = (of_int n - of_int p + 3) / 6"
    by (simp add: field_simps)
  have "jump_delta p n = (of_int n - of_int p) * (pi / 3) + pi
          - 2 * pi * of_int (trunc (((of_int n - of_int p) * (pi / 3) + pi) / (2 * pi))) - pi"
    unfolding jump_delta_def Let_def js_rem_def getRotationAngle_diff ..
  then show ?thesis unfolding e by simp
qed

lemma jump_delta_congruent:
  "\<exists>k::int. jump_delta p n = getRotationAngle n - getRotationAngle p + 2 * pi * of_int k"
proof -
  have "jump_delta p n = getRotationAngle n - getRotationAngle p
          + 2 * pi * of_int (- trunc ((of_int n - of_int p + 3) / 6))"
    by (simp add: jump_delta_closed getRotationAngle_diff)
  then show ?thesis by blast
qed

text \<open>
  C1 (the code departs from the claim): sides 4 and 0 are distinct and not adjacent, so the
  side-change handler takes the direct-jump branch for a change from 4 to 0. The wrapped
  delta it computes there is \<open>-4\<pi>/3\<close>, which is below \<open>-\<pi>\<close>: the remainder of the source
  keeps the sign of the negative dividend \<open>-\<pi>/3\<close>, so that the rotation goes the long
  way round instead of the shortest arc \<open>2\<pi>/3\<close>.
\<close>

theorem jump_4_to_0_long_arc:
  "getNextSide 4 \<noteq> 0 \<and> getPrevSide 4 \<noteq> 0
   \<and> jump_delta 4 0 = - (4 * pi / 3)
   \<and> accumulatedRef (onSideChanged (CityGroup_init 4) 0) = getRotationAngle 4 - 4 * pi / 3
   \<and> jump_delta 4 0 < - pi"
proof -
  have s: "getNextSide 4 = 5" "getPrevSide 4 = 3"
    by (simp_all add: getNextSide_def getPrevSide_def js_rem_int_def SIDES_def)
  have j: "jump_delta 4 0 = - (4 * pi / 3)"
    by (simp add: jump_delta_closed trunc_def ceiling_def)
  have a: "accumulatedRef (onSideChanged (CityGroup_init 4) 0) = getRotationAngle 4 - 4 * pi / 3"
    by (simp add: onSideChanged_def CityGroup_init_def s j)
  have "- (4 * pi / 3) < - pi"
    using pi_gt_zero by simp
  then have "jump_delta 4 0 < - pi"
    by (simp add: j)
  with s j a show ?thesis by simp
qed

text \<open>
  The delta of the direct-jump branch for each difference of sides that is neither 0 nor
  adjacent within [0,6): only a difference of -4 (from 4 to 0, from 5 to 1) leaves the
  shortest arc.
\<close>

lemma jump_delta_by_difference:
  "jump_delta p (p + 2) = 2 * pi / 3"
  "jump_delta p (p + 3) = - pi"
  "jump_delta p (p + 4) = - (2 * pi / 3)"
  "jump_delta p (p - 2) = - (2 * pi / 3)"
  "jump_delta p (p - 3) = - pi"
  "jump_delta p (p - 4) = - (4 * pi / 3)"
  by (simp_all add: jump_delta_closed trunc_def ceiling_def)

lemma onSideChanged_invariant:
  assumes "0 \<le> prevSideRef r" "prevSideRef r < 6" "0 \<le> n" "n < 6"
    and "\<exists>k::int. accumulatedRef r = getRotationAngle (prevSideRef r) + 2 * pi * of_int k"
  shows "prevSideRef (onSideChanged r n) = n
       \<and> (\<exists>k::int. accumulatedRef (onSideChanged r n) = getRotationAngle n + 2 * pi * of_int k)"
proof -
  let ?p = "prevSideRef r"
  obtain k :: int where k: "accumulatedRef r = getRotationAngle ?p + 2 * pi * of_int k"
    using assms(5) by blast
  have nx: "getNextSide ?p = (if ?p = 5 then 0 else ?p + 1)"
    using assms(1,2) by (rule getNextSide_in_range)
  have pv: "getPrevSide ?p = (if ?p = 0 then 5 else ?p - 1)"
    using assms(1,2) by (rule getPrevSide_in_range)
  have side: "prevSideRef (onSideChanged r n) = n"
    by (simp add: onSideChanged_def Let_def)
  consider (same) "?p = n"
    | (fwd) "?p \<noteq> n" "getNextSide ?p = n"
    | (bwd) "?p \<noteq> n" "getNextSide ?p \<noteq> n" "getPrevSide ?p = n"
    | (jump) "?p \<noteq> n" "getNextSide ?p \<noteq> n" "getPrevSide ?p \<noteq> n"
    by blast
  then have "\<exists>k'::int. accumulatedRef (onSideChanged r n) = getRotationAngle n + 2 * pi * of_int k'"
  proof cases
    case same
    then have "onSideChanged r n = r" by (simp add: onSideChanged_def)
    with same k show ?thesis by auto
  next
    case fwd
    then have acc: "accumulatedRef (onSideChanged r n) = accumulatedRef r + ANGLE_PER_SIDE"
      by (simp add: onSideChanged_def Let_def)
    show ?thesis
    proof (cases "?p = 5")
      case True
      then have "n = 0" using fwd nx by simp
      with True have rp: "real_of_int ?p = real_of_int n + 5" by simp
      have "accumulatedRef (onSideChanged r n) = getRotationAngle n + 2 * pi * of_int (k + 1)"
        unfolding acc k
        by (simp add: getRotationAngle_def ANGLE_PER_SIDE_def SIDES_def rp field_simps)
      then show ?thesis by blast
    next
      case False
      then have "n = ?p + 1" using fwd nx by simp
      then have rp: "real_of_int ?p = real_of_int n - 1" by simp
      have "accumulatedRef (onSideChanged r n) = getRotationAngle n + 2 * pi * of_int k"
        unfolding acc k
        by (simp add: getRotationAngle_def ANGLE_PER_SIDE_def SIDES_def rp field_simps)
      then show ?thesis by blast
    qed
  next
    case bwd
    then have acc: "accumulatedRef (onSideChanged r n) = accumulatedRef r - ANGLE_PER_SIDE"
      by (simp add: onSideChanged_def Let_def)
    show ?thesis
    proof (cases "?p = 0")
      case True
      then have "n = 5" using bwd pv by simp
      with True have rp: "real_of_int ?p = real_of_int n - 5" by simp
      have "accumulatedRef (onSideChanged r n) = getRotationAngle n + 2 * pi * of_int (k - 1)"
        unfolding acc k
        by (simp add: getRotationAngle_def ANGLE_PER_SIDE_def SIDES_def rp field_simps)
      then show ?thesis by blast
    next
      case False
      then have "n = ?p - 1" using bwd pv by simp
      then have rp: "real_of_int ?p = real_of_int n + 1" by simp
      have "accumulatedRef (onSideChanged r n) = getRotationAngle n + 2 * pi * of_int k"
        unfolding acc k
        by (simp add: getRotationAngle_def ANGLE_PER_SIDE_def SIDES_def rp field_simps)
      then show ?thesis by blast
    qed
  next
    case jump
    then have acc: "accumulatedRef (onSideChanged r n) = accumulatedRef r + jump_delta ?p n"
      by (simp add: onSideChanged_def Let_def)
    obtain j :: int where
      j: "jump_delta ?p n = getRotationAngle n - getRotationAngle ?p + 2 * pi * of_int j"
      using jump_delta_congruent by blast
    have "accumulatedRef (onSideChanged r n) = getRotationAngle n + 2 * pi * of_int (k + j)"
      using acc k j by (simp add: algebra_simps)
    then show ?thesis by blast
  qed
  with side show ?thesis by simp
qed

lemma foldl_onSideChanged_invariant:
  assumes "\<forall>s \<in> set sides. 0 \<le> s \<and> s < 6"
    and "0 \<le> prevSideRef r" "prevSideRef r < 6"
    and "\<exists>k::int. accumulatedRef r = getRotationAngle (prevSideRef r) + 2 * pi * of_int k"
  shows "prevSideRef (foldl onSideChanged r sides) = last (prevSideRef r # sides)
       \<and> (\<exists>k::int. accumulatedRef (foldl onSideChanged r sides)
             = getRotationAngle (last (prevSideRef r # sides)) + 2 * pi * of_int k)"
  using assms
proof (induction sides arbitrary: r)
  case Nil
  then show ?case by simp
next
  case (Cons n sides)
  have n: "0 \<le> n" "n < 6" using Cons.prems(1) by simp_all
  have st: "prevSideRef (onSideChanged r n) = n
       \<and> (\<exists>k::int. accumulatedRef (onSideChanged r n) = getRotationAngle n + 2 * pi * of_int k)"
    using Cons.prems(2,3) n Cons.prems(4) by (rule onSideChanged_invariant)
  have "prevSideRef (foldl onSideChanged (onSideChanged r n) sides)
          = last (prevSideRef (onSideChanged r n) # sides)
       \<and> (\<exists>k::int. accumulatedRef (foldl onSideChanged (onSideChanged r n) sides)
             = getRotationAngle (last (prevSideRef (onSideChanged r n) # sides)) + 2 * pi * of_int k)"
    using Cons.prems(1) st n by (intro Cons.IH) simp_all
  then show ?case using st by simp
qed

text \<open>
  C2: after any finite sequence of side changes, each to a side in [0,6), starting from
  the initial refs for a side in [0,6), the handler's previous-side ref holds the
  current side and the accumulated rotation differs from the canonical angle of the
  current side by an integer multiple of \<open>2\<pi>\<close>.
\<close>

theorem accumulated_congruent:
  assumes "0 \<le> s0" "s0 < 6" "\<forall>s \<in> set sides. 0 \<le> s \<and> s < 6"
  shows "prevSideRef (foldl onSideChanged (CityGroup_init s0) sides) = last (s0 # sides)
       \<and> (\<exists>k::int. accumulatedRef (foldl onSideChanged (CityGroup_init s0) sides)
             = getRotationAngle (last (s0 # sides)) + 2 * pi * of_int k)"
proof -
  have i: "\<exists>k::int. accumulatedRef (CityGroup_init s0)
             = getRotationAngle (prevSideRef (CityGroup_init s0)) + 2 * pi * of_int k"
    by (intro exI [of _ 0]) (simp add: CityGroup_init_def)
  have p: "prevSideRef (CityGroup_init s0) = s0" by (simp add: CityGroup_init_def)
  show ?thesis
    using foldl_onSideChanged_invariant [of sides "CityGroup_init s0"] assms i
    unfolding p by blast
qed

theorem accumulated_congruent_witness:
  "prevSideRef (foldl onSideChanged (CityGroup_init 4) [0, 1]) = 1
   \<and> (\<exists>k::int. accumulatedRef (foldl onSideChanged (CityGroup_init 4) [0, 1])
          = getRotationAngle 1 + 2 * pi * of_int k)"
  using accumulated_congruent [of 4 "[0, 1]"] by simp

section \<open>Camera distance\<close>

lemma tan_fov_half: "0 < tan (degToRad CAMERA_FOV / 2) \<and> tan (degToRad CAMERA_FOV / 2) < 1"
proof -
  have e: "degToRad CAMERA_FOV / 2 = 5 * pi / 24"
    by (simp add: degToRad_def CAMERA_FOV_def)
  have b: "0 < 5 * pi / 24" "5 * pi / 24 < pi / 4" "5 * pi / 24 < pi / 2"
    "- (pi / 2) < 5 * pi / 24" "- (pi / 2) < pi / 4" "pi / 4 < pi / 2"
    using pi_gt_zero by simp_all
  have p: "0 < tan (5 * pi / 24)"
    using b(1) b(3) by (rule tan_gt_zero)
  have "tan (5 * pi / 24) < tan (pi / 4)"
    using tan_monotone' [OF b(4) b(3) b(5) b(6)] b(2) by blast
  then have "tan (5 * pi / 24) < 1"
    by (simp only: tan_45)
  with p show ?thesis unfolding e by blast
qed

lemma framing_distance_10:
  "framing_distance 10 1000 = 7 / tan (degToRad CAMERA_FOV / 2) \<and> 7 < framing_distance 10 1000"
proof -
  define t where "t = tan (degToRad CAMERA_FOV / 2)"
  have t: "0 < t" "t < 1" using tan_fov_half by (simp_all add: t_def)
  have "7 * t < 7 * 1" using t by simp
  then have big: "7 < 7 / t" using t by (simp add: pos_less_divide_eq)
  have "framing_distance 10 1000 = max (7 / t) 5"
    by (simp add: framing_distance_def Let_def FRAMING_PADDING_def MIN_CAMERA_DISTANCE_def
        MOBILE_BREAKPOINT_def t_def)
  also have "\<dots> = 7 / t" using big by (simp add: max_def)
  finally show ?thesis using big by (simp add: t_def)
qed

text \<open>The local \<open>distance\<close> of the callback, with the constants written out.\<close>

lemma framing_distance_unfold:
  "framing_distance R width
     = (if width < 1000 then 1.35 else 1) * max ((R * 0.7) / tan (degToRad 75 / 2)) 5
   \<and> degToRad 75 / 2 = degToRad 37.5
   \<and> framing_distance 10 width
     = (if width < 1000 then 1.35 else 1) * max ((10 * 0.7) / tan (degToRad 37.5)) 5"
proof -
  have h: "degToRad 75 / 2 = degToRad 37.5"
    by (simp add: degToRad_def)
  have g: "framing_distance r width
     = (if width < 1000 then 1.35 else 1) * max ((r * 0.7) / tan (degToRad 75 / 2)) 5" for r
    by (simp add: framing_distance_def Let_def FRAMING_PADDING_def MIN_CAMERA_DISTANCE_def
        MOBILE_BREAKPOINT_def MOBILE_DISTANCE_FACTOR_def CAMERA_FOV_def)
  show ?thesis using g [of R] g [of 10] h by simp
qed

lemma framing_distance_positive: "0 < framing_distance R width"
proof -
  have "5 \<le> max ((R * FRAMING_PADDING) / tan (degToRad CAMERA_FOV / 2)) MIN_CAMERA_DISTANCE"
    by (simp add: MIN_CAMERA_DISTANCE_def)
  then have "0 < max ((R * FRAMING_PADDING) / tan (degToRad CAMERA_FOV / 2)) MIN_CAMERA_DISTANCE"
    by linarith
  then show ?thesis
    by (simp add: framing_distance_def Let_def MOBILE_DISTANCE_FACTOR_def)
qed

lemma raf_callback_framed:
  "raf_callback (Some \<lparr>children_length = n,
                        bounding_sphere = Some \<lparr>center = c, radius = R\<rparr>\<rparr>) width s
     = s\<lparr>camera := \<lparr>position = \<lparr>vx = vx c,
                                   vy = vy c + framing_distance R width * sin CAMERA_ELEVATION_ANGLE,
                                   vz = vz c + framing_distance R width * cos CAMERA_ELEVATION_ANGLE\<rparr>,
                      looking_at = Some c\<rparr>,
          controls := map_option
             (\<lambda>oc. oc\<lparr>orbit_target := c,
                       minDistance := framing_distance R width * ZOOM_IN_FACTOR,
                       maxDistance := framing_distance R width\<rparr>) (controls s),
          hasFramed := True,
          framings := framings s + 1\<rparr>"
  by (simp add: raf_callback_def Let_def)

lemma elevation_offset_length:
  assumes "0 \<le> d"
  shows "sqrt ((d * sin a)\<^sup>2 + (d * cos a)\<^sup>2) = d"
proof -
  have "(d * sin a)\<^sup>2 + (d * cos a)\<^sup>2 = d\<^sup>2 * ((sin a)\<^sup>2 + (cos a)\<^sup>2)"
    by (simp only: power_mult_distrib distrib_left)
  also have "\<dots> = d\<^sup>2" by (simp only: sin_cos_squared_add mult_1_right)
  finally show ?thesis using assms by simp
qed

text \<open>
  C4: when the animation-frame callback finds a bounding sphere of radius \<open>R\<close> and centre
  \<open>c\<close>, it puts the camera at \<open>c\<close> plus the elevation offset of length \<open>d\<close>, looking at
  \<open>c\<close>, so that the camera is at distance \<open>d\<close> from \<open>c\<close>, and it sets the largest zoom
  distance of the orbit controls to \<open>d\<close> (the smallest to \<open>d \<times> 0.33\<close>), where \<open>d\<close> is
  \<open>max ((R \<times> 0.7) / tan (fov / 2)) 5\<close> with \<open>fov\<close> = 75 degrees, multiplied by 1.35 when the
  viewport width is below 1000 and left as it is otherwise. Half of the field of view is
  37.5 degrees, so that for \<open>R = 10\<close> the distance before that multiplication is
  \<open>max ((10 \<times> 0.7) / tan (37.5 degrees)) 5\<close>.
\<close>

theorem raf_callback_camera_distance:
  "(let g = \<lparr>children_length = n, bounding_sphere = Some \<lparr>center = c, radius = R\<rparr>\<rparr>;
        s' = raf_callback (Some g) width s;
        p = position (camera s');
        d = (if width < 1000 then 1.35 else 1) * max ((R * 0.7) / tan (degToRad 75 / 2)) 5
    in p = \<lparr>vx = vx c, vy = vy c + d * sin 2.85, vz = vz c + d * cos 2.85\<rparr>
       \<and> looking_at (camera s') = Some c
       \<and> sqrt ((vx p - vx c)\<^sup>2 + (vy p - vy c)\<^sup>2 + (vz p - vz c)\<^sup>2) = d
       \<and> controls s' = map_option
            (\<lambda>oc. oc\<lparr>orbit_target := c, minDistance := d * 0.33, maxDistance := d\<rparr>)
            (controls s)
       \<and> hasFramed s')
   \<and> degToRad 75 / 2 = degToRad 37.5
   \<and> (let g = \<lparr>children_length = n, bounding_sphere = Some \<lparr>center = c, radius = 10\<rparr>\<rparr>;
          s' = raf_callback (Some g) width s;
          p = position (camera s');
          d = (if width < 1000 then 1.35 else 1) * max ((10 * 0.7) / tan (degToRad 37.5)) 5
      in sqrt ((vx p - vx c)\<^sup>2 + (vy p - vy c)\<^sup>2 + (vz p - vz c)\<^sup>2) = d
         \<and> map_option maxDistance (controls s') = map_option (\<lambda>oc. d) (controls s))"
proof -
  have h: "degToRad 75 / 2 = degToRad 37.5"
    by (simp add: degToRad_def)
  define after where "after r = raf_callback (Some \<lparr>children_length = n,
      bounding_sphere = Some \<lparr>center = c, radius = r\<rparr>\<rparr>) width s" for r
  define D where "D r = framing_distance r width" for r
  have fd: "(if width < 1000 then 1.35 else 1) * max ((r * 0.7) / tan (degToRad 75 / 2)) 5 = D r"
    for r
    using framing_distance_unfold [of r width] by (simp add: D_def)
  have pos: "position (camera (after r))
               = \<lparr>vx = vx c, vy = vy c + D r * sin 2.85, vz = vz c + D r * cos 2.85\<rparr>" for r
    by (simp add: after_def D_def raf_callback_framed CAMERA_ELEVATION_ANGLE_def)
  have look: "looking_at (camera (after r)) = Some c" for r
    by (simp add: after_def raf_callback_framed)
  have ctl: "controls (after r) = map_option
            (\<lambda>oc. oc\<lparr>orbit_target := c, minDistance := D r * 0.33, maxDistance := D r\<rparr>)
            (controls s)" for r
    by (simp add: after_def D_def raf_callback_framed ZOOM_IN_FACTOR_def)
  have mx: "map_option maxDistance (controls (after r)) = map_option (\<lambda>oc. D r) (controls s)" for r
    unfolding ctl by (simp add: option.map_comp comp_def)
  have fr: "hasFramed (after r)" for r
    by (simp add: after_def raf_callback_framed)
  have len: "sqrt ((vx (position (camera (after r))) - vx c)\<^sup>2
                 + (vy (position (camera (after r))) - vy c)\<^sup>2
                 + (vz (position (camera (after r))) - vz c)\<^sup>2) = D r" for r
  proof -
    have "0 \<le> D r"
      using framing_distance_positive [of r width] by (simp add: D_def)
    then have "sqrt ((D r * sin 2.85)\<^sup>2 + (D r * cos 2.85)\<^sup>2) = D r"
      by (rule elevation_offset_length)
    then show ?thesis unfolding pos by simp
  qed
  show ?thesis
    unfolding Let_def h [symmetric] fd after_def [symmetric]
    using pos look ctl mx fr len by simp
qed

text \<open>
  A concrete run: the effect on a viewport of width 800 requests the callback, which runs
  at the next animation frame with that width; for the radius 10 the minimum distance 5
  does not apply.
\<close>

lemma framed_city_run:
  "run (AutoFrameCamera_init ctl) [Effect (Some city) 800, AnimationFrame (Some city)]
     = raf_callback (Some city) 800
         ((AutoFrameCamera_init ctl)\<lparr>effect_cleanup := Some 0, next_raf_id := 1\<rparr>)"
  "framing_distance 10 800 = 1.35 * (7 / tan (degToRad 37.5))"
proof -
  show "run (AutoFrameCamera_init ctl) [Effect (Some city) 800, AnimationFrame (Some city)]
     = raf_callback (Some city) 800
         ((AutoFrameCamera_init ctl)\<lparr>effect_cleanup := Some 0, next_raf_id := 1\<rparr>)"
    by (simp add: run_def AutoFrameCamera_init_def run_cleanup_def effect_body_def city_def)
  have "7 < framing_distance 10 1000" using framing_distance_10 by simp
  then have "5 < 7 / tan (degToRad 75 / 2)"
    using framing_distance_unfold [of 10 1000] by (simp add: max_def split: if_splits)
  then have "max ((10 * 0.7) / tan (degToRad 75 / 2)) 5 = 7 / tan (degToRad 75 / 2)"
    by (simp add: max_def)
  moreover have "degToRad 75 / 2 = degToRad 37.5" by (simp add: degToRad_def)
  ultimately show "framing_distance 10 800 = 1.35 * (7 / tan (degToRad 37.5))"
    using framing_distance_unfold [of 10 800] by simp
qed

section \<open>One-shot framing\<close>

lemma queue_owned_init: "queue_owned (AutoFrameCamera_init c)"
  by (simp add: queue_owned_def AutoFrameCamera_init_def)

lemma run_cleanup_queue:
  assumes "queue_owned s"
  shows "raf_queue (run_cleanup s) = [] \<and> effect_cleanup (run_cleanup s) = None
       \<and> hasFramed (run_cleanup s) = hasFramed s \<and> framings (run_cleanup s) = framings s
       \<and> camera (run_cleanup s) = camera s \<and> controls (run_cleanup s) = controls s"
proof (cases "effect_cleanup s")
  case None
  then have "raf_queue s = []"
    using assms by (cases "raf_queue s") (auto simp: queue_owned_def)
  with None show ?thesis by (simp add: run_cleanup_def)
next
  case (Some i)
  then have "\<forall>p \<in> set (raf_queue s). fst p = i"
    using assms by (auto simp: queue_owned_def)
  then have "filter (\<lambda>p. fst p \<noteq> i) (raf_queue s) = []"
    by (simp add: filter_empty_conv)
  with Some show ?thesis by (simp add: run_cleanup_def)
qed

lemma raf_callback_cases:
  "raf_callback g w s = s
   \<or> (hasFramed (raf_callback g w s) \<and> framings (raf_callback g w s) = framings s + 1
      \<and> raf_queue (raf_callback g w s) = raf_queue s
      \<and> effect_cleanup (raf_callback g w s) = effect_cleanup s)"
  by (simp add: raf_callback_def Let_def split: option.splits)

lemma step_queue_owned:
  assumes "queue_owned s"
  shows "queue_owned (step s e)"
proof (cases e)
  case (Effect g w)
  let ?c = "run_cleanup s"
  have c: "raf_queue ?c = []" "effect_cleanup ?c = None"
    "hasFramed ?c = hasFramed s" "framings ?c = framings s"
    using run_cleanup_queue [OF assms] by simp_all
  have f: "framings s = (if hasFramed s then 1 else 0)"
    using assms by (simp add: queue_owned_def)
  show ?thesis
    unfolding Effect step.simps
    by (simp add: queue_owned_def effect_body_def c f)
next
  case (AnimationFrame g)
  have q: "raf_queue s = [] \<or> (\<exists>p. raf_queue s = [p])"
    using assms by (cases "raf_queue s") (auto simp: queue_owned_def)
  have f: "framings s = (if hasFramed s then 1 else 0)"
    and h: "hasFramed s \<longrightarrow> raf_queue s = []"
    using assms by (simp_all add: queue_owned_def)
  from q show ?thesis
  proof
    assume e: "raf_queue s = []"
    then have "step s e = s" by (simp add: AnimationFrame)
    with assms show ?thesis by simp
  next
    assume "\<exists>p. raf_queue s = [p]"
    then obtain p where p: "raf_queue s = [p]" by blast
    then have nf: "\<not> hasFramed s" using h by auto
    let ?s0 = "s\<lparr>raf_queue := []\<rparr>"
    have st: "step s e = raf_callback g (snd p) ?s0"
      by (simp add: AnimationFrame p)
    have "queue_owned (raf_callback g (snd p) ?s0)"
      using raf_callback_cases [of g "snd p" ?s0] f nf
      by (auto simp: queue_owned_def)
    then show ?thesis by (simp add: st)
  qed
next
  case Cleanup
  have c: "raf_queue (run_cleanup s) = []" "effect_cleanup (run_cleanup s) = None"
    "hasFramed (run_cleanup s) = hasFramed s" "framings (run_cleanup s) = framings s"
    using run_cleanup_queue [OF assms] by simp_all
  have f: "framings s = (if hasFramed s then 1 else 0)"
    using assms by (simp add: queue_owned_def)
  show ?thesis
    unfolding Cleanup step.simps by (simp add: queue_owned_def c f)
qed

lemma run_queue_owned: "queue_owned s \<Longrightarrow> queue_owned (run s es)"
  unfolding run_def by (induction es arbitrary: s) (simp_all add: step_queue_owned)

lemma step_framed:
  assumes "queue_owned s" "hasFramed s"
  shows "hasFramed (step s e) \<and> framings (step s e) = framings s
       \<and> camera (step s e) = camera s \<and> controls (step s e) = controls s"
proof (cases e)
  case (Effect g w)
  show ?thesis
    unfolding Effect step.simps
    using run_cleanup_queue [OF assms(1)] assms(2) by (simp add: effect_body_def)
next
  case (AnimationFrame g)
  have "raf_queue s = []" using assms by (simp add: queue_owned_def)
  then have "step s e = s" by (simp add: AnimationFrame)
  with assms(2) show ?thesis by simp
next
  case Cleanup
  show ?thesis
    unfolding Cleanup step.simps
    using run_cleanup_queue [OF assms(1)] assms(2) by simp
qed

lemma run_framed:
  "queue_owned s \<Longrightarrow> hasFramed s \<Longrightarrow>
   hasFramed (run s es) \<and> framings (run s es) = framings s
   \<and> camera (run s es) = camera s \<and> controls (run s es) = controls s"
proof (induction es arbitrary: s)
  case Nil
  then show ?case by (simp add: run_def)
next
  case (Cons e es)
  have a: "queue_owned (step s e)" using Cons.prems(1) by (rule step_queue_owned)
  have b: "hasFramed (step s e) \<and> framings (step s e) = framings s
       \<and> camera (step s e) = camera s \<and> controls (step s e) = controls s"
    using Cons.prems by (rule step_framed)
  have "hasFramed (run (step s e) es) \<and> framings (run (step s e) es) = framings (step s e)
   \<and> camera (run (step s e) es) = camera (step s e) \<and> controls (run (step s e) es) = controls (step s e)"
    using a b by (intro Cons.IH) simp_all
  with b show ?case by (simp add: run_def)
qed

lemma run_append: "run s (es @ es') = run (run s es) es'"
  by (simp add: run_def)

text \<open>
  C5: for one mounted \<open>AutoFrameCamera\<close>, whatever effect runs, animation frames and
  cleanups happen, the framing is performed at most once; once \<open>hasFramed\<close> is set it
  stays set through every later event, the framing is not performed again, and the
  camera and the orbit controls keep the values the framing gave them.
\<close>

theorem framed_once:
  "framings (run (AutoFrameCamera_init c) es) \<le> 1
   \<and> (hasFramed (run (AutoFrameCamera_init c) es) \<longrightarrow>
        hasFramed (run (AutoFrameCamera_init c) (es @ es'))
        \<and> framings (run (AutoFrameCamera_init c) (es @ es')) = 1
        \<and> framings (run (AutoFrameCamera_init c) es) = 1
        \<and> camera (run (AutoFrameCamera_init c) (es @ es')) = camera (run (AutoFrameCamera_init c) es)
        \<and> controls (run (AutoFrameCamera_init c) (es @ es')) = controls (run (AutoFrameCamera_init c) es))"
proof -
  let ?s = "run (AutoFrameCamera_init c) es"
  have q: "queue_owned ?s"
    using queue_owned_init by (rule run_queue_owned)
  then have f: "framings ?s = (if hasFramed ?s then 1 else 0)"
    by (simp add: queue_owned_def)
  then have le: "framings ?s \<le> 1" by simp
  have "hasFramed ?s \<longrightarrow>
        hasFramed (run ?s es') \<and> framings (run ?s es') = framings ?s
        \<and> camera (run ?s es') = camera ?s \<and> controls (run ?s es') = controls ?s"
    using run_framed [OF q] by blast
  with f le show ?thesis by (simp add: run_append)
qed

theorem framed_once_witness:
  "hasFramed (run (AutoFrameCamera_init None) [Effect (Some city) 1200, AnimationFrame (Some city)])
   \<and> framings (run (AutoFrameCamera_init None)
        ([Effect (Some city) 1200, AnimationFrame (Some city)]
         @ [Effect (Some city) 800, AnimationFrame (Some city)])) = 1"
proof -
  have h: "hasFramed (run (AutoFrameCamera_init None) [Effect (Some city) 1200, AnimationFrame (Some city)])"
    by (simp add: run_def AutoFrameCamera_init_def run_cleanup_def effect_body_def
        raf_callback_def city_def Let_def)
  show ?thesis
    using h framed_once [of None "[Effect (Some city) 1200, AnimationFrame (Some city)]"
        "[Effect (Some city) 800, AnimationFrame (Some city)]"]
    by blast
qed

end
